theory Spec2Isabelle
  imports Main
begin

section \<open>Data model\<close>

text \<open>
  The \<open>friendships\<close> table of \<open>friendship-request-router.ts\<close>: one row per directed
  edge, as the interface \<open>Friendship\<close> declares it. The field \<open>id\<close> is written
  \<open>id_friendship\<close> (and \<open>id_user\<close> for the \<open>users\<close> table), since \<open>id\<close> is
  the identity function of HOL.
\<close>

datatype FriendshipStatus = Requested | Accepted | Declined

record Friendship =
  id_friendship :: nat
  userId :: nat
  friendUserId :: nat
  status :: FriendshipStatus

record User =
  id_user :: nat
  fullName :: string
  phoneNumber :: string

text \<open>
  The relational store \<open>ctx.db\<close>: the two tables the routers read and write. Rows are
  kept in insertion order. An insert does not give the row's \<open>id\<close>; the store assigns
  it, which is modelled by the counter \<open>nextFriendshipId\<close>.
\<close>

record Database =
  users :: "User list"
  friendships :: "Friendship list"
  nextFriendshipId :: nat

text \<open>The errors the routers raise: a \<open>TRPCError\<close> with its code and optional message.\<close>

datatype TRPCCode = BAD_REQUEST | NOT_FOUND | UNAUTHORIZED

datatype TRPCError = TRPCError TRPCCode "string option"

type_synonym 'a outcome = "(TRPCError + 'a) \<times> Database"

section \<open>Store primitives\<close>

text \<open>\<open>selectFrom('friendships').where(...)\<close>: the rows that satisfy the conditions.\<close>

definition selectFrom_friendships :: "(Friendship \<Rightarrow> bool) \<Rightarrow> Database \<Rightarrow> Friendship list" where
  "selectFrom_friendships p db = filter p (friendships db)"

definition selectFrom_users :: "(User \<Rightarrow> bool) \<Rightarrow> Database \<Rightarrow> User list" where
  "selectFrom_users p db = filter p (users db)"

text \<open>\<open>executeTakeFirst\<close>: the first row of the result, or \<open>undefined\<close>.\<close>

definition executeTakeFirst :: "'a list \<Rightarrow> 'a option" where
  "executeTakeFirst rows = (case rows of [] \<Rightarrow> None | r # _ \<Rightarrow> Some r)"

text \<open>\<open>executeTakeFirstOrThrow\<close>: the first row of the result, or the given error.\<close>

definition executeTakeFirstOrThrow :: "TRPCError \<Rightarrow> 'a list \<Rightarrow> TRPCError + 'a" where
  "executeTakeFirstOrThrow e rows = (case rows of [] \<Rightarrow> Inl e | r # _ \<Rightarrow> Inr r)"

text \<open>\<open>updateTable('friendships').set({ status }).where(...)\<close>: every matching row gets
  the status; nothing else of any row changes.\<close>

definition updateTable_friendships ::
    "(Friendship \<Rightarrow> bool) \<Rightarrow> FriendshipStatus \<Rightarrow> Database \<Rightarrow> Database" where
  "updateTable_friendships p st db =
     db\<lparr>friendships := map (\<lambda>f. if p f then f\<lparr>status := st\<rparr> else f) (friendships db)\<rparr>"

text \<open>\<open>insertInto('friendships').values({ userId, friendUserId, status })\<close>: one new row
  at the end, with the next id of the store.\<close>

definition insertInto_friendships ::
    "nat \<Rightarrow> nat \<Rightarrow> FriendshipStatus \<Rightarrow> Database \<Rightarrow> Database" where
  "insertInto_friendships u v st db =
     db\<lparr>friendships := friendships db @
           [\<lparr>id_friendship = nextFriendshipId db, userId = u, friendUserId = v, status = st\<rparr>],
        nextFriendshipId := Suc (nextFriendshipId db)\<rparr>"

text \<open>\<open>db.transaction().execute(f)\<close>: the writes of \<open>f\<close> are kept when it returns and
  rolled back when it throws.\<close>

definition transaction :: "(Database \<Rightarrow> 'a outcome) \<Rightarrow> Database \<Rightarrow> 'a outcome" where
  "transaction f db =
     (case f db of
        (Inl e, _) \<Rightarrow> (Inl e, db)
      | (Inr v, db') \<Rightarrow> (Inr v, db'))"

section \<open>Middlewares\<close>

text \<open>
  Modelled from the spec: \<open>authGuard\<close> (imported from
  \<open>@/server/trpc/middlewares/auth-guard\<close>, not among the sources). The spec has it supply
  a trusted caller identity for every mutation, and fail with \<open>Unauthorized\<close> when there
  is none, before anything else runs. The session is the caller's \<open>userId\<close>, if any.
\<close>

definition authGuard :: "nat option \<Rightarrow> TRPCError + nat" where
  "authGuard session =
     (case session of
        None \<Rightarrow> Inl (TRPCError UNAUTHORIZED None)
      | Some uid \<Rightarrow> Inr uid)"

text \<open>\<open>canSendFriendshipRequest\<close>: after \<open>authGuard\<close>, the target must be a row of
  \<open>users\<close>. It only reads, and hands the caller's id on. The input is taken as parsed:
  \<open>friendUserId\<close> is an id.\<close>

definition canSendFriendshipRequest :: "nat option \<Rightarrow> nat \<Rightarrow> Database \<Rightarrow> TRPCError + nat" where
  "canSendFriendshipRequest session friendUserId_in db =
     (case authGuard session of
        Inl e \<Rightarrow> Inl e
      | Inr uid \<Rightarrow>
          (case executeTakeFirstOrThrow (TRPCError BAD_REQUEST None)
                  (selectFrom_users (\<lambda>u. id_user u = friendUserId_in) db) of
             Inl e \<Rightarrow> Inl e
           | Inr _ \<Rightarrow> Inr uid))"

text \<open>\<open>canAnswerFriendshipRequest\<close>: after \<open>authGuard\<close>, there must be a row from the
  given user to the caller with status \<open>requested\<close>. It only reads.\<close>

definition canAnswerFriendshipRequest :: "nat option \<Rightarrow> nat \<Rightarrow> Database \<Rightarrow> TRPCError + nat" where
  "canAnswerFriendshipRequest session friendUserId_in db =
     (case authGuard session of
        Inl e \<Rightarrow> Inl e
      | Inr uid \<Rightarrow>
          (case executeTakeFirstOrThrow (TRPCError BAD_REQUEST None)
                  (selectFrom_friendships
                     (\<lambda>f. userId f = friendUserId_in \<and> friendUserId f = uid \<and> status f = Requested)
                     db) of
             Inl e \<Rightarrow> Inl e
           | Inr _ \<Rightarrow> Inr uid))"

section \<open>The request lifecycle\<close>

text \<open>The message of the error of \<open>checkAndUpdateFriendshipRequest\<close> (Vietnamese for
  "the friendship request already exists or has been accepted"), written without its
  diacritics.\<close>

definition msgExistsOrAccepted :: string where
  "msgExistsOrAccepted = ''Yeu cau ket ban da ton tai hoac da duoc chap nhan.''"

definition checkAndUpdateFriendshipRequest :: "nat \<Rightarrow> nat \<Rightarrow> Database \<Rightarrow> unit outcome" where
  "checkAndUpdateFriendshipRequest uid fuid db =
     (case executeTakeFirst
             (selectFrom_friendships (\<lambda>f. userId f = uid \<and> friendUserId f = fuid) db) of
        Some existingFriendship \<Rightarrow>
          if status existingFriendship = Declined then
            (Inr (),
             updateTable_friendships (\<lambda>f. userId f = uid \<and> friendUserId f = fuid) Requested db)
          else
            (Inl (TRPCError BAD_REQUEST (Some msgExistsOrAccepted)), db)
      | None \<Rightarrow>
          (Inr (), insertInto_friendships uid fuid Requested db))"

definition acceptFriendshipRequest :: "nat \<Rightarrow> nat \<Rightarrow> Database \<Rightarrow> unit outcome" where
  "acceptFriendshipRequest uid fuid t =
     (let t1 = updateTable_friendships (\<lambda>f. userId f = fuid \<and> friendUserId f = uid) Accepted t
      in case executeTakeFirst
                (selectFrom_friendships (\<lambda>f. userId f = uid \<and> friendUserId f = fuid) t1) of
           Some existingFriendship \<Rightarrow>
             (Inr (),
              updateTable_friendships (\<lambda>f. userId f = uid \<and> friendUserId f = fuid) Accepted t1)
         | None \<Rightarrow>
             (Inr (), insertInto_friendships uid fuid Accepted t1))"

text \<open>The three procedures of \<open>friendshipRequestRouter\<close>. The middleware runs first; when
  it throws, the mutation does not run.\<close>

definition send :: "nat option \<Rightarrow> nat \<Rightarrow> Database \<Rightarrow> unit outcome" where
  "send session friendUserId_in db =
     (case canSendFriendshipRequest session friendUserId_in db of
        Inl e \<Rightarrow> (Inl e, db)
      | Inr uid \<Rightarrow> checkAndUpdateFriendshipRequest uid friendUserId_in db)"

definition accept :: "nat option \<Rightarrow> nat \<Rightarrow> Database \<Rightarrow> unit outcome" where
  "accept session friendUserId_in db =
     (case canAnswerFriendshipRequest session friendUserId_in db of
        Inl e \<Rightarrow> (Inl e, db)
      | Inr uid \<Rightarrow> transaction (acceptFriendshipRequest uid friendUserId_in) db)"

definition decline :: "nat option \<Rightarrow> nat \<Rightarrow> Database \<Rightarrow> unit outcome" where
  "decline session friendUserId_in db =
     (case canAnswerFriendshipRequest session friendUserId_in db of
        Inl e \<Rightarrow> (Inl e, db)
      | Inr uid \<Rightarrow>
          (Inr (),
           updateTable_friendships
             (\<lambda>f. userId f = friendUserId_in \<and> friendUserId f = uid) Declined db))"

section \<open>Reading the state\<close>

text \<open>The rows of the ordered pair \<open>(u, v)\<close>, and the status a point lookup of the pair
  reads (that of the first row, if any).\<close>

definition edge_rows :: "Database \<Rightarrow> nat \<Rightarrow> nat \<Rightarrow> Friendship list" where
  "edge_rows db u v = selectFrom_friendships (\<lambda>f. userId f = u \<and> friendUserId f = v) db"

definition edge_status :: "Database \<Rightarrow> nat \<Rightarrow> nat \<Rightarrow> FriendshipStatus option" where
  "edge_status db u v = map_option status (executeTakeFirst (edge_rows db u v))"

text \<open>The identity of the data model: at most one row per ordered pair.\<close>

definition unique_pairs :: "Database \<Rightarrow> bool" where
  "unique_pairs db = distinct (map (\<lambda>f. (userId f, friendUserId f)) (friendships db))"

text \<open>Invariant I1: no row from a user to themselves.\<close>

definition no_self_edges :: "Database \<Rightarrow> bool" where
  "no_self_edges db = list_all (\<lambda>f. userId f \<noteq> friendUserId f) (friendships db)"

text \<open>Invariant I2: every \<open>accepted\<close> row has an \<open>accepted\<close> mirror row.\<close>

definition accepted_symmetric :: "Database \<Rightarrow> bool" where
  "accepted_symmetric db =
     (\<forall>f\<in>set (friendships db). status f = Accepted \<longrightarrow>
        (\<exists>g\<in>set (friendships db).
           userId g = friendUserId f \<and> friendUserId g = userId f \<and> status g = Accepted))"

text \<open>The precondition of answering: a row from \<open>r\<close> to \<open>c\<close> with status \<open>requested\<close>.\<close>

definition pending_request :: "Database \<Rightarrow> nat \<Rightarrow> nat \<Rightarrow> bool" where
  "pending_request db r c =
     (\<exists>f\<in>set (friendships db). userId f = r \<and> friendUserId f = c \<and> status f = Requested)"

definition user_exists :: "Database \<Rightarrow> nat \<Rightarrow> bool" where
  "user_exists db t = (\<exists>u\<in>set (users db). id_user u = t)"

text \<open>What identifies a row and its edge: everything but the status.\<close>

definition row_identity :: "Friendship \<Rightarrow> nat \<times> nat \<times> nat" where
  "row_identity f = (id_friendship f, userId f, friendUserId f)"

text \<open>The effect of an update of the pair \<open>(u, v)\<close> on one row.\<close>

definition set_status :: "nat \<Rightarrow> nat \<Rightarrow> FriendshipStatus \<Rightarrow> Friendship \<Rightarrow> Friendship" where
  "set_status u v st f = (if userId f = u \<and> friendUserId f = v then f\<lparr>status := st\<rparr> else f)"

text \<open>The frame of a mutation: the rows of \<open>db\<close> are still there in \<open>db'\<close>, in
  their places and with their identities, and the users are the same.\<close>

definition keeps_rows :: "Database \<Rightarrow> Database \<Rightarrow> bool" where
  "keeps_rows db db' =
     (length (friendships db) \<le> length (friendships db')
      \<and> take (length (friendships db)) (map row_identity (friendships db'))
          = map row_identity (friendships db)
      \<and> users db' = users db)"

section \<open>The friend-info read\<close>

text \<open>The result of \<open>getById\<close>: the columns of the \<open>users\<close> row and the two counts.\<close>

record FriendInfo = User +
  totalFriendCount :: nat
  mutualFriendCount :: nat

text \<open>The first query of \<open>getById\<close>: \<open>friendships as f1\<close> joined with
  \<open>friendships as f2\<close> on \<open>friendUserId\<close>, restricted to the accepted rows of the caller
  and of the friend; the count of the joined rows.\<close>

definition mutualFriendCountResult :: "nat \<Rightarrow> nat \<Rightarrow> Database \<Rightarrow> nat" where
  "mutualFriendCountResult uid fuid db =
     length [(f1, f2). f1 \<leftarrow> friendships db, f2 \<leftarrow> friendships db,
               friendUserId f1 = friendUserId f2,
               userId f1 = uid, userId f2 = fuid,
               status f1 = Accepted, status f2 = Accepted]"

text \<open>\<open>userTotalFriendCount\<close>: the accepted rows grouped by \<open>userId\<close>, with their count.\<close>

definition userTotalFriendCount :: "Database \<Rightarrow> (nat \<times> nat) list" where
  "userTotalFriendCount db =
     (let acc = filter (\<lambda>f. status f = Accepted) (friendships db)
      in map (\<lambda>u. (u, length (filter (\<lambda>f. userId f = u) acc))) (remdups (map userId acc)))"

text \<open>
  \<open>getById\<close>: the count of mutual friends first, then the row of the friend, which
  must be an \<open>accepted\<close> friend of the caller (\<open>NOT_FOUND\<close> otherwise), joined with
  the friend's total. \<open>protectedProcedure\<close> is not among the sources; as the spec has
  every call carry a trusted caller identity, it is the procedure behind \<open>authGuard\<close>.
  The final \<open>friendInfoSchema.parse\<close> checks the shape of the record and is not
  modelled.
\<close>

definition getById :: "nat option \<Rightarrow> nat \<Rightarrow> Database \<Rightarrow> TRPCError + FriendInfo" where
  "getById session friendUserId_in db =
     (case authGuard session of
        Inl e \<Rightarrow> Inl e
      | Inr uid \<Rightarrow>
          (let mutual = mutualFriendCountResult uid friendUserId_in db
           in case executeTakeFirstOrThrow (TRPCError NOT_FOUND None)
                     [(friends, total_count).
                        friends \<leftarrow> users db, f \<leftarrow> friendships db,
                        friendUserId f = id_user friends,
                        (total_uid, total_count) \<leftarrow> userTotalFriendCount db,
                        total_uid = id_user friends,
                        userId f = uid, friendUserId f = friendUserId_in,
                        status f = Accepted] of
                Inl e \<Rightarrow> Inl e
              | Inr (friends, total_count) \<Rightarrow>
                  Inr \<lparr>id_user = id_user friends, fullName = fullName friends,
                       phoneNumber = phoneNumber friends,
                       totalFriendCount = total_count, mutualFriendCount = mutual\<rparr>))"

text \<open>The count as the spec words it: the size of the intersection of the two users'
  accepted-outbound sets.\<close>

definition acceptedOutbound :: "Database \<Rightarrow> nat \<Rightarrow> nat set" where
  "acceptedOutbound db u =
     set (map friendUserId (filter (\<lambda>f. userId f = u \<and> status f = Accepted) (friendships db)))"

definition spec_mutualFriendCount :: "Database \<Rightarrow> nat \<Rightarrow> nat \<Rightarrow> nat" where
  "spec_mutualFriendCount db c t = card (acceptedOutbound db c \<inter> acceptedOutbound db t)"

section \<open>Sequences of calls\<close>

text \<open>A call of one of the three mutations, with the caller and the input
  \<open>friendUserId\<close>, and the state that a sequence of calls leaves.\<close>

datatype Mutation = Send nat nat | Accept nat nat | Decline nat nat

fun apply_mutation :: "Mutation \<Rightarrow> Database \<Rightarrow> Database" where
  "apply_mutation (Send c t) db = snd (send (Some c) t db)"
| "apply_mutation (Accept c r) db = snd (accept (Some c) r db)"
| "apply_mutation (Decline c r) db = snd (decline (Some c) r db)"

fun run :: "Mutation list \<Rightarrow> Database \<Rightarrow> Database" where
  "run [] db = db"
| "run (m # ms) db = run ms (apply_mutation m db)"

fun self_send :: "Mutation \<Rightarrow> bool" where
  "self_send (Send c t) = (c = t)"
| "self_send _ = False"

section \<open>Example states\<close>

definition alice :: User where
  "alice = \<lparr>id_user = 1, fullName = ''Alice'', phoneNumber = ''0001''\<rparr>"

definition bob :: User where
  "bob = \<lparr>id_user = 2, fullName = ''Bob'', phoneNumber = ''0002''\<rparr>"

definition carol :: User where
  "carol = \<lparr>id_user = 3, fullName = ''Carol'', phoneNumber = ''0003''\<rparr>"

definition dave :: User where
  "dave = \<lparr>id_user = 4, fullName = ''Dave'', phoneNumber = ''0004''\<rparr>"

definition edge :: "nat \<Rightarrow> nat \<Rightarrow> nat \<Rightarrow> FriendshipStatus \<Rightarrow> Friendship" where
  "edge i u v st = \<lparr>id_friendship = i, userId = u, friendUserId = v, status = st\<rparr>"

definition db_of :: "Friendship list \<Rightarrow> Database" where
  "db_of fs = \<lparr>users = [alice, bob, carol, dave], friendships = fs,
               nextFriendshipId = Suc (length fs)\<rparr>"

section \<open>Basic facts about the store and the procedures\<close>

lemma filter_eq_Nil_set: "(filter p xs = []) = (\<not> (\<exists>x\<in>set xs. p x))"
  by (simp add: filter_empty_conv)

lemma takeFirstOrThrow_cases:
  "executeTakeFirstOrThrow e (filter p xs) = (if \<exists>x\<in>set xs. p x then Inr (hd (filter p xs)) else Inl e)"
proof (cases "filter p xs")
  case Nil
  then show ?thesis by (simp add: executeTakeFirstOrThrow_def filter_empty_conv)
next
  case (Cons a as)
  then have "a \<in> set (filter p xs)" by simp
  then have "\<exists>x\<in>set xs. p x" by auto
  then show ?thesis using Cons by (simp add: executeTakeFirstOrThrow_def)
qed

lemma canAnswer_eq: "canAnswerFriendshipRequest (Some c) r db =
   (if pending_request db r c then Inr c else Inl (TRPCError BAD_REQUEST None))"
  by (auto simp add: canAnswerFriendshipRequest_def authGuard_def takeFirstOrThrow_cases
      selectFrom_friendships_def pending_request_def)

lemma canSend_eq: "canSendFriendshipRequest (Some c) t db =
   (if user_exists db t then Inr c else Inl (TRPCError BAD_REQUEST None))"
  by (auto simp add: canSendFriendshipRequest_def authGuard_def takeFirstOrThrow_cases
      selectFrom_users_def user_exists_def)

lemma friendships_update:
  "friendships (updateTable_friendships (\<lambda>f. userId f = u \<and> friendUserId f = v) st db)
     = map (set_status u v st) (friendships db)"
  by (simp add: updateTable_friendships_def set_status_def)

lemma friendships_insert:
  "friendships (insertInto_friendships u v st db) = friendships db @
     [\<lparr>id_friendship = nextFriendshipId db, userId = u, friendUserId = v, status = st\<rparr>]"
  by (simp add: insertInto_friendships_def)

lemma edge_status_cases:
  "edge_status db u v = (case edge_rows db u v of [] \<Rightarrow> None | f # _ \<Rightarrow> Some (status f))"
  by (simp add: edge_status_def executeTakeFirst_def split: list.splits)

lemma send_eq:
  "send (Some c) t db =
     (if \<not> user_exists db t then (Inl (TRPCError BAD_REQUEST None), db)
      else case edge_status db c t of
             None \<Rightarrow> (Inr (), insertInto_friendships c t Requested db)
           | Some Declined \<Rightarrow>
               (Inr (), updateTable_friendships (\<lambda>f. userId f = c \<and> friendUserId f = t) Requested db)
           | Some _ \<Rightarrow> (Inl (TRPCError BAD_REQUEST (Some msgExistsOrAccepted)), db))"
  by (auto simp: send_def canSend_eq checkAndUpdateFriendshipRequest_def edge_status_cases
       edge_rows_def executeTakeFirst_def split: list.splits FriendshipStatus.splits)

lemma accept_eq:
  "accept (Some c) r db =
     (if \<not> pending_request db r c then (Inl (TRPCError BAD_REQUEST None), db)
      else let t1 = updateTable_friendships (\<lambda>f. userId f = r \<and> friendUserId f = c) Accepted db
           in if edge_rows t1 c r = [] then (Inr (), insertInto_friendships c r Accepted t1)
              else (Inr (), updateTable_friendships (\<lambda>f. userId f = c \<and> friendUserId f = r) Accepted t1))"
  by (auto simp: accept_def canAnswer_eq acceptFriendshipRequest_def transaction_def Let_def
       edge_rows_def executeTakeFirst_def split: list.splits)

lemma decline_eq:
  "decline (Some c) r db =
     (if \<not> pending_request db r c then (Inl (TRPCError BAD_REQUEST None), db)
      else (Inr (), updateTable_friendships (\<lambda>f. userId f = r \<and> friendUserId f = c) Declined db))"
  by (simp add: decline_def canAnswer_eq)

lemma none_session:
  "send None x db = (Inl (TRPCError UNAUTHORIZED None), db)"
  "accept None x db = (Inl (TRPCError UNAUTHORIZED None), db)"
  "decline None x db = (Inl (TRPCError UNAUTHORIZED None), db)"
  by (simp_all add: send_def accept_def decline_def canSendFriendshipRequest_def
       canAnswerFriendshipRequest_def authGuard_def)

lemma edge_rows_set:
  "set (edge_rows db u v) = {f \<in> set (friendships db). userId f = u \<and> friendUserId f = v}"
  by (auto simp: edge_rows_def selectFrom_friendships_def)

lemma edge_status_all:
  assumes "\<forall>f\<in>set (friendships db). userId f = u \<and> friendUserId f = v \<longrightarrow> status f = st"
    and "edge_rows db u v \<noteq> []"
  shows "edge_status db u v = Some st"
proof -
  obtain f fs where fs: "edge_rows db u v = f # fs" using assms(2) by (cases "edge_rows db u v") auto
  then have "f \<in> set (edge_rows db u v)" by simp
  then have "status f = st" using assms(1) by (simp add: edge_rows_set)
  then show ?thesis by (simp add: edge_status_cases fs)
qed

lemma set_status_fields [simp]:
  "userId (set_status u v st f) = userId f"
  "friendUserId (set_status u v st f) = friendUserId f"
  "id_friendship (set_status u v st f) = id_friendship f"
  "status (set_status u v st f) = (if userId f = u \<and> friendUserId f = v then st else status f)"
  by (simp_all add: set_status_def)

lemma edge_rows_update:
  "edge_rows (updateTable_friendships (\<lambda>f. userId f = u \<and> friendUserId f = v) st db) a b
    = map (set_status u v st) (edge_rows db a b)"
  by (simp add: edge_rows_def selectFrom_friendships_def friendships_update filter_map comp_def)

lemma edge_rows_insert:
  "edge_rows (insertInto_friendships u v st db) a b
    = edge_rows db a b @ (if a = u \<and> b = v then
        [\<lparr>id_friendship = nextFriendshipId db, userId = u, friendUserId = v, status = st\<rparr>] else [])"
  by (auto simp add: edge_rows_def selectFrom_friendships_def friendships_insert)

lemma pending_edge_rows: "pending_request db r c \<Longrightarrow> edge_rows db r c \<noteq> []"
  by (auto simp: pending_request_def edge_rows_def selectFrom_friendships_def filter_eq_Nil_set)

lemma update_other_fields [simp]:
  "users (updateTable_friendships p st db) = users db"
  "nextFriendshipId (updateTable_friendships p st db) = nextFriendshipId db"
  by (simp_all add: updateTable_friendships_def)

lemma insert_other_fields [simp]:
  "users (insertInto_friendships u v st db) = users db"
  "nextFriendshipId (insertInto_friendships u v st db) = Suc (nextFriendshipId db)"
  by (simp_all add: insertInto_friendships_def)

lemma user_exists_update [simp]:
  "user_exists (updateTable_friendships p st db) t = user_exists db t"
  by (simp add: user_exists_def)

lemma user_exists_insert [simp]:
  "user_exists (insertInto_friendships u v st db) t = user_exists db t"
  by (simp add: user_exists_def)

lemma edge_status_None: "(edge_status db u v = None) = (edge_rows db u v = [])"
  by (simp add: edge_status_cases split: list.splits)

lemma edge_rows_Nil_keys:
  "(edge_rows db u v = []) = ((u, v) \<notin> set (map (\<lambda>f. (userId f, friendUserId f)) (friendships db)))"
  by (auto simp: edge_rows_def selectFrom_friendships_def filter_empty_conv)

lemma pairs_set_status:
  "(\<lambda>f. (userId f, friendUserId f)) \<circ> set_status u v st = (\<lambda>f. (userId f, friendUserId f))"
  by (rule ext) simp

lemma unique_pairs_update:
  "unique_pairs (updateTable_friendships (\<lambda>f. userId f = u \<and> friendUserId f = v) st db)
     = unique_pairs db"
  by (simp add: unique_pairs_def friendships_update pairs_set_status)

lemma unique_pairs_insert:
  "unique_pairs (insertInto_friendships u v st db) = (unique_pairs db \<and> edge_rows db u v = [])"
  by (auto simp: unique_pairs_def friendships_insert edge_rows_Nil_keys)

lemma row_identity_set_status [simp]:
  "row_identity (set_status u v st f) = row_identity f"
  by (simp add: row_identity_def)

lemma identity_set_status:
  "map row_identity (map (set_status u v st) fs) = map row_identity fs"
  by simp

lemma identities_update:
  "map row_identity (friendships (updateTable_friendships (\<lambda>f. userId f = u \<and> friendUserId f = v) st db))
     = map row_identity (friendships db)"
  by (simp add: friendships_update identity_set_status)

lemma identities_insert:
  "map row_identity (friendships (insertInto_friendships u v st db))
     = map row_identity (friendships db) @ [(nextFriendshipId db, u, v)]"
  by (simp add: friendships_insert row_identity_def)

lemma keeps_rows_refl: "keeps_rows db db"
  by (simp add: keeps_rows_def)

lemma keeps_rows_update:
  "keeps_rows db0 db \<Longrightarrow>
   keeps_rows db0 (updateTable_friendships (\<lambda>f. userId f = u \<and> friendUserId f = v) st db)"
  unfolding keeps_rows_def
  by (simp only: identities_update update_other_fields)
     (simp add: friendships_update)

lemma keeps_rows_insert:
  "keeps_rows db0 db \<Longrightarrow> keeps_rows db0 (insertInto_friendships u v st db)"
  unfolding keeps_rows_def
  by (simp only: identities_insert insert_other_fields)
     (simp add: friendships_insert)

lemma edge_status_update_same:
  "edge_rows db u v \<noteq> [] \<Longrightarrow>
   edge_status (updateTable_friendships (\<lambda>f. userId f = u \<and> friendUserId f = v) st db) u v = Some st"
  by (rule edge_status_all) (auto simp: friendships_update edge_rows_update)

lemma edge_status_Some_rows: "edge_status db u v = Some st \<Longrightarrow> edge_rows db u v \<noteq> []"
  by (auto simp: edge_status_cases)

lemma edge_status_insert_new:
  "edge_rows db u v = [] \<Longrightarrow> edge_status (insertInto_friendships u v st db) u v = Some st"
  by (simp add: edge_status_cases edge_rows_insert)

lemma send_ok_requested:
  assumes "fst (send (Some a) b db) = Inr ()"
  shows "user_exists db b \<and> edge_status (snd (send (Some a) b db)) a b = Some Requested"
proof -
  have ue: "user_exists db b" using assms by (simp add: send_eq split: if_splits)
  show ?thesis
  proof (cases "edge_status db a b")
    case None
    then have "edge_rows db a b = []" by (simp add: edge_status_None)
    then show ?thesis using ue None by (simp add: send_eq edge_status_insert_new)
  next
    case (Some st)
    then have st: "st = Declined" using assms ue
      by (cases st) (simp_all add: send_eq)
    from Some have "edge_rows db a b \<noteq> []" by (rule edge_status_Some_rows)
    then show ?thesis using ue Some st by (simp add: send_eq edge_status_update_same)
  qed
qed

lemma requested_pending: "edge_status db u v = Some Requested \<Longrightarrow> pending_request db u v"
proof -
  assume a: "edge_status db u v = Some Requested"
  then obtain f fs where fs: "edge_rows db u v = f # fs" and st: "status f = Requested"
    by (auto simp: edge_status_cases split: list.splits)
  then have "f \<in> set (edge_rows db u v)" by simp
  then have "f \<in> set (friendships db) \<and> userId f = u \<and> friendUserId f = v"
    by (simp add: edge_rows_set)
  with st show ?thesis unfolding pending_request_def by blast
qed

lemma unique_pairs_edge_rows:
  "unique_pairs db \<Longrightarrow> length (edge_rows db u v) \<le> 1"
proof -
  have "distinct (map (\<lambda>f. (userId f, friendUserId f)) fs) \<Longrightarrow>
        length (filter (\<lambda>f. userId f = u \<and> friendUserId f = v) fs) \<le> 1" for fs
  proof (induction fs)
    case Nil
    then show ?case by simp
  next
    case (Cons f fs)
    show ?case
    proof (cases "userId f = u \<and> friendUserId f = v")
      case True
      with Cons.prems have "(u, v) \<notin> set (map (\<lambda>f. (userId f, friendUserId f)) fs)" by auto
      then have "filter (\<lambda>f. userId f = u \<and> friendUserId f = v) fs = []"
        by (auto simp: filter_empty_conv)
      with True show ?thesis by simp
    next
      case False
      from Cons.prems have "distinct (map (\<lambda>f. (userId f, friendUserId f)) fs)" by simp
      then have "length (filter (\<lambda>f. userId f = u \<and> friendUserId f = v) fs) \<le> 1"
        by (rule Cons.IH)
      with False show ?thesis by auto
    qed
  qed
  then show "unique_pairs db \<Longrightarrow> length (edge_rows db u v) \<le> 1"
    by (simp add: unique_pairs_def edge_rows_def selectFrom_friendships_def)
qed

lemma send_rejects:
  assumes "user_exists db t"
    and "edge_status db c t = Some Requested \<or> edge_status db c t = Some Accepted"
  shows "send (Some c) t db = (Inl (TRPCError BAD_REQUEST (Some msgExistsOrAccepted)), db)"
  using assms by (auto simp: send_eq)

lemma unique_pairs_send: "unique_pairs db \<Longrightarrow> unique_pairs (snd (send (Some c) t db))"
  by (simp add: send_eq unique_pairs_update unique_pairs_insert edge_status_None
        split: option.splits FriendshipStatus.splits)

lemma user_exists_send: "user_exists (snd (send (Some c) t db)) x = user_exists db x"
  by (simp add: send_eq split: option.splits FriendshipStatus.splits)

lemma no_self_edges_set:
  "no_self_edges db = (\<forall>f\<in>set (friendships db). userId f \<noteq> friendUserId f)"
  by (simp add: no_self_edges_def list_all_iff)

lemma no_self_edges_update:
  "no_self_edges (updateTable_friendships (\<lambda>f. userId f = u \<and> friendUserId f = v) st db)
     = no_self_edges db"
  by (simp add: no_self_edges_set friendships_update)

lemma no_self_edges_insert:
  "no_self_edges (insertInto_friendships u v st db) = (no_self_edges db \<and> u \<noteq> v)"
  by (auto simp: no_self_edges_set friendships_insert)

lemma pending_not_self:
  "no_self_edges db \<Longrightarrow> pending_request db r c \<Longrightarrow> r \<noteq> c"
  by (auto simp: no_self_edges_set pending_request_def)

lemma no_self_edges_send:
  "no_self_edges db \<Longrightarrow> c \<noteq> t \<Longrightarrow> no_self_edges (snd (send (Some c) t db))"
  by (simp add: send_eq no_self_edges_update no_self_edges_insert
        split: option.splits FriendshipStatus.splits)

lemma no_self_edges_accept:
  assumes "no_self_edges db"
  shows "no_self_edges (snd (accept (Some c) r db))"
proof (cases "pending_request db r c")
  case True
  with assms have "r \<noteq> c" by (rule pending_not_self)
  with assms True show ?thesis
    by (auto simp: accept_eq Let_def no_self_edges_update no_self_edges_insert)
next
  case False
  with assms show ?thesis by (simp add: accept_eq)
qed

lemma no_self_edges_decline:
  "no_self_edges db \<Longrightarrow> no_self_edges (snd (decline (Some c) r db))"
  by (simp add: decline_eq no_self_edges_update)

lemma no_self_edges_apply:
  "no_self_edges db \<Longrightarrow> \<not> self_send m \<Longrightarrow> no_self_edges (apply_mutation m db)"
  by (cases m) (simp_all add: no_self_edges_send no_self_edges_accept no_self_edges_decline)

lemma edge_rows_update_other:
  "(u, v) \<noteq> (a, b) \<Longrightarrow>
   edge_rows (updateTable_friendships (\<lambda>f. userId f = a \<and> friendUserId f = b) st db) u v
     = edge_rows db u v"
proof -
  assume ne: "(u, v) \<noteq> (a, b)"
  have "map (set_status a b st) (edge_rows db u v) = edge_rows db u v"
  proof (rule map_idI)
    fix f assume "f \<in> set (edge_rows db u v)"
    then have "userId f = u \<and> friendUserId f = v" by (simp add: edge_rows_set)
    with ne show "set_status a b st f = f" by (auto simp: set_status_def)
  qed
  then show ?thesis by (simp add: edge_rows_update)
qed

lemma edge_rows_insert_other:
  "(u, v) \<noteq> (a, b) \<Longrightarrow> edge_rows (insertInto_friendships a b st db) u v = edge_rows db u v"
  by (auto simp: edge_rows_insert)

lemma send_frame:
  "(u, v) \<noteq> (a, b) \<Longrightarrow> edge_rows (snd (send (Some a) b db)) u v = edge_rows db u v"
  by (simp add: send_eq edge_rows_update_other edge_rows_insert_other
        split: option.splits FriendshipStatus.splits)

lemma decline_frame:
  "(u, v) \<noteq> (a, b) \<Longrightarrow> edge_rows (snd (decline (Some b) a db)) u v = edge_rows db u v"
  by (simp add: decline_eq edge_rows_update_other)

lemma join_inner:
  "length (concat (map (\<lambda>f2. if friendUserId f1 = friendUserId f2
        then if userId f1 = c
             then if userId f2 = t
                  then if status f1 = Accepted
                       then if status f2 = Accepted then [(f1, f2)] else []
                       else []
                  else []
             else []
        else []) ys))
   = (if userId f1 = c \<and> status f1 = Accepted
      then length (filter (\<lambda>f2. userId f2 = t \<and> status f2 = Accepted
                              \<and> friendUserId f2 = friendUserId f1) ys)
      else 0)"
  by (induction ys) auto

lemma join_outer:
  "length [(f1, f2). f1 \<leftarrow> xs, f2 \<leftarrow> ys,
               friendUserId f1 = friendUserId f2,
               userId f1 = c, userId f2 = t,
               status f1 = Accepted, status f2 = Accepted]
   = sum_list (map (\<lambda>f1. length (filter (\<lambda>f2. userId f2 = t \<and> status f2 = Accepted
                              \<and> friendUserId f2 = friendUserId f1) ys))
        (filter (\<lambda>f. userId f = c \<and> status f = Accepted) xs))"
proof (induction xs)
  case Nil
  then show ?case by simp
next
  case (Cons x xs)
  show ?case
    using Cons.IH by (simp only: list.map concat.simps length_append join_inner filter.simps)
      (simp)
qed


lemma acceptedOutbound_iff:
  "(x \<in> acceptedOutbound db u) =
     (\<exists>f\<in>set (friendships db). userId f = u \<and> friendUserId f = x \<and> status f = Accepted)"
  by (auto simp: acceptedOutbound_def)

lemma matching_rows_count:
  assumes u: "unique_pairs db"
  shows "length (filter (\<lambda>f2. userId f2 = t \<and> status f2 = Accepted \<and> friendUserId f2 = x)
            (friendships db))
         = (if x \<in> acceptedOutbound db t then 1 else 0)"
proof -
  let ?m = "filter (\<lambda>f2. userId f2 = t \<and> status f2 = Accepted \<and> friendUserId f2 = x)
            (friendships db)"
  have eq: "?m = filter (\<lambda>f. status f = Accepted) (edge_rows db t x)"
    by (auto simp: edge_rows_def selectFrom_friendships_def intro: filter_cong)
  have "length ?m \<le> length (edge_rows db t x)" unfolding eq by (rule length_filter_le)
  also have "\<dots> \<le> 1" using u by (rule unique_pairs_edge_rows)
  finally have le: "length ?m \<le> 1" .
  have ne: "(?m \<noteq> []) = (x \<in> acceptedOutbound db t)"
    by (auto simp: acceptedOutbound_iff filter_empty_conv)
  show ?thesis
  proof (cases "x \<in> acceptedOutbound db t")
    case True
    with ne have "?m \<noteq> []" by simp
    with le have "length ?m = 1" by (cases ?m) auto
    with True show ?thesis by simp
  next
    case False
    with ne have "?m = []" by simp
    with False show ?thesis by simp
  qed
qed

lemma sum_indicator:
  "sum_list (map (\<lambda>f. if P f then (1::nat) else 0) xs) = length (filter P xs)"
  by (induction xs) auto

lemma outbound_distinct:
  assumes u: "unique_pairs db"
  shows "distinct (map friendUserId
           (filter (\<lambda>f. userId f = c \<and> status f = Accepted) (friendships db)))"
proof -
  let ?A = "filter (\<lambda>f. userId f = c \<and> status f = Accepted) (friendships db)"
  from u have "distinct (map (\<lambda>f. (userId f, friendUserId f)) ?A)"
    unfolding unique_pairs_def by (rule distinct_map_filter)
  moreover have "map (\<lambda>f. (userId f, friendUserId f)) ?A = map (\<lambda>f. (c, friendUserId f)) ?A"
    by (rule map_cong) auto
  moreover have "map (\<lambda>f. (c, friendUserId f)) ?A = map (Pair c) (map friendUserId ?A)"
    by simp
  ultimately have "distinct (map (Pair c) (map friendUserId ?A))" by simp
  with distinct_map[of "Pair c" "map friendUserId ?A"] show ?thesis by blast
qed

lemma mutual_count_spec:
  assumes u: "unique_pairs db"
  shows "mutualFriendCountResult c t db = spec_mutualFriendCount db c t"
proof -
  let ?A = "filter (\<lambda>f. userId f = c \<and> status f = Accepted) (friendships db)"
  have "mutualFriendCountResult c t db
      = sum_list (map (\<lambda>f1. length (filter (\<lambda>f2. userId f2 = t \<and> status f2 = Accepted
                              \<and> friendUserId f2 = friendUserId f1) (friendships db))) ?A)"
    unfolding mutualFriendCountResult_def by (rule join_outer)
  also have "\<dots> = sum_list (map (\<lambda>f1. if friendUserId f1 \<in> acceptedOutbound db t
                                        then (1::nat) else 0) ?A)"
    by (simp only: matching_rows_count[OF u])
  also have "\<dots> = length (filter (\<lambda>f1. friendUserId f1 \<in> acceptedOutbound db t) ?A)"
    by (rule sum_indicator)
  also have "\<dots> = length (filter (\<lambda>x. x \<in> acceptedOutbound db t) (map friendUserId ?A))"
    by (simp add: filter_map comp_def)
  also have "\<dots> = card (set (filter (\<lambda>x. x \<in> acceptedOutbound db t) (map friendUserId ?A)))"
  proof -
    have "distinct (filter (\<lambda>x. x \<in> acceptedOutbound db t) (map friendUserId ?A))"
      using outbound_distinct[OF u, of c] by (rule distinct_filter)
    then show ?thesis by (rule distinct_card[symmetric])
  qed
  also have "set (filter (\<lambda>x. x \<in> acceptedOutbound db t) (map friendUserId ?A))
      = acceptedOutbound db c \<inter> acceptedOutbound db t"
    unfolding acceptedOutbound_def[of db c] by auto
  finally show ?thesis by (simp add: spec_mutualFriendCount_def)
qed

lemma getById_mutual:
  "getById (Some c) t db = Inr info \<Longrightarrow> mutualFriendCount info = mutualFriendCountResult c t db"
  by (auto simp: getById_def authGuard_def Let_def executeTakeFirstOrThrow_def
      split: list.splits sum.splits prod.splits)

lemma accept_post:
  assumes ok: "fst (accept (Some c) r db) = Inr ()"
  shows "pending_request db r c
     \<and> edge_status (snd (accept (Some c) r db)) r c = Some Accepted
     \<and> edge_status (snd (accept (Some c) r db)) c r = Some Accepted
     \<and> (\<forall>f\<in>set (friendships (snd (accept (Some c) r db))).
          (userId f = r \<and> friendUserId f = c) \<or> (userId f = c \<and> friendUserId f = r)
            \<longrightarrow> status f = Accepted)"
proof -
  have p: "pending_request db r c" using ok by (simp add: accept_eq split: if_splits)
  define db' where "db' = snd (accept (Some c) r db)"
  define t1 where "t1 = updateTable_friendships (\<lambda>f. userId f = r \<and> friendUserId f = c) Accepted db"
  have ne1: "edge_rows t1 r c \<noteq> []" using pending_edge_rows[OF p] by (simp add: t1_def edge_rows_update)
  have all1: "\<forall>f\<in>set (friendships t1). userId f = r \<and> friendUserId f = c \<longrightarrow> status f = Accepted"
    by (auto simp: t1_def friendships_update)
  show ?thesis
  proof (cases "edge_rows t1 c r = []")
    case True
    have d: "db' = insertInto_friendships c r Accepted t1"
      using p True by (simp add: db'_def accept_eq Let_def t1_def)
    have none: "\<forall>f\<in>set (friendships t1). \<not> (userId f = c \<and> friendUserId f = r)"
      using True by (auto simp: edge_rows_def selectFrom_friendships_def filter_eq_Nil_set)
    have all: "\<forall>f\<in>set (friendships db').
          (userId f = r \<and> friendUserId f = c) \<or> (userId f = c \<and> friendUserId f = r)
            \<longrightarrow> status f = Accepted"
    proof (intro ballI impI)
      fix f
      assume m: "f \<in> set (friendships db')"
        and pr: "(userId f = r \<and> friendUserId f = c) \<or> (userId f = c \<and> friendUserId f = r)"
      from m have "f = \<lparr>id_friendship = nextFriendshipId t1, userId = c, friendUserId = r,
                     status = Accepted\<rparr> \<or> f \<in> set (friendships t1)"
        by (simp add: d friendships_insert)
      then show "status f = Accepted"
      proof
        assume "f = \<lparr>id_friendship = nextFriendshipId t1, userId = c, friendUserId = r,
                     status = Accepted\<rparr>"
        then show ?thesis by simp
      next
        assume "f \<in> set (friendships t1)"
        with all1 none pr show ?thesis by blast
      qed
    qed
    have e1: "edge_rows db' r c \<noteq> []" using ne1 by (simp add: d edge_rows_insert)
    have e2: "edge_rows db' c r \<noteq> []" by (simp add: d edge_rows_insert)
    have s1: "edge_status db' r c = Some Accepted"
      by (rule edge_status_all[OF _ e1]) (use all in blast)
    have s2: "edge_status db' c r = Some Accepted"
      by (rule edge_status_all[OF _ e2]) (use all in blast)
    from p s1 s2 all show ?thesis
      unfolding db'_def by blast
  next
    case False
    have d: "db' = updateTable_friendships (\<lambda>f. userId f = c \<and> friendUserId f = r) Accepted t1"
      using p False by (simp add: db'_def accept_eq Let_def t1_def)
    have all: "\<forall>f\<in>set (friendships db').
          (userId f = r \<and> friendUserId f = c) \<or> (userId f = c \<and> friendUserId f = r)
            \<longrightarrow> status f = Accepted"
    proof (intro ballI impI)
      fix f
      assume m: "f \<in> set (friendships db')"
        and pr: "(userId f = r \<and> friendUserId f = c) \<or> (userId f = c \<and> friendUserId f = r)"
      from m obtain g where g: "g \<in> set (friendships t1)" and f: "f = set_status c r Accepted g"
        unfolding d friendships_update by auto
      show "status f = Accepted"
      proof (cases "userId g = c \<and> friendUserId g = r")
        case True
        then show ?thesis by (simp add: f)
      next
        case False
        with pr have "userId g = r \<and> friendUserId g = c" by (simp add: f)
        with all1 g have "status g = Accepted" by blast
        with False show ?thesis by (simp add: f)
      qed
    qed
    have e1: "edge_rows db' r c \<noteq> []" using ne1 by (simp add: d edge_rows_update)
    have e2: "edge_rows db' c r \<noteq> []" using False by (simp add: d edge_rows_update)
    have s1: "edge_status db' r c = Some Accepted"
      by (rule edge_status_all[OF _ e1]) (use all in blast)
    have s2: "edge_status db' c r = Some Accepted"
      by (rule edge_status_all[OF _ e2]) (use all in blast)
    from p s1 s2 all show ?thesis
      unfolding db'_def by blast
  qed
qed

lemma unique_status:
  assumes u: "unique_pairs db" and f: "f \<in> set (friendships db)"
    and p: "userId f = a" "friendUserId f = b"
  shows "edge_status db a b = Some (status f)"
proof -
  from f p have m: "f \<in> set (edge_rows db a b)" by (simp add: edge_rows_set)
  have le: "length (edge_rows db a b) \<le> 1" using u by (rule unique_pairs_edge_rows)
  from m obtain g gs where e: "edge_rows db a b = g # gs" by (cases "edge_rows db a b") auto
  with le have "gs = []" by simp
  with e m have "g = f" by simp
  with e show ?thesis by (simp add: edge_status_cases)
qed

lemma sym_update_nonaccepted:
  assumes s: "accepted_symmetric db" and st: "st \<noteq> Accepted"
    and na: "\<forall>f\<in>set (friendships db). userId f = a \<and> friendUserId f = b \<longrightarrow> status f \<noteq> Accepted"
  shows "accepted_symmetric (updateTable_friendships (\<lambda>f. userId f = a \<and> friendUserId f = b) st db)"
  unfolding accepted_symmetric_def friendships_update
proof (intro ballI impI)
  fix f' assume m: "f' \<in> set (map (set_status a b st) (friendships db))"
    and acc: "status f' = Accepted"
  from m obtain f where f: "f \<in> set (friendships db)" and f': "f' = set_status a b st f" by auto
  have nf: "\<not> (userId f = a \<and> friendUserId f = b)" using acc st by (auto simp: f')
  then have ff: "f' = f" by (auto simp: f' set_status_def)
  with acc have "status f = Accepted" by simp
  with s f obtain g where g: "g \<in> set (friendships db)"
    and gp: "userId g = friendUserId f" "friendUserId g = userId f" and ga: "status g = Accepted"
    unfolding accepted_symmetric_def by blast
  from na g ga have "\<not> (userId g = a \<and> friendUserId g = b)" by blast
  then have "set_status a b st g = g" by (auto simp: set_status_def)
  with g have "g \<in> set (map (set_status a b st) (friendships db))" by force
  with gp ga ff
  show "\<exists>g\<in>set (map (set_status a b st) (friendships db)).
           userId g = friendUserId f' \<and> friendUserId g = userId f' \<and> status g = Accepted"
    by blast
qed

lemma sym_insert_nonaccepted:
  assumes s: "accepted_symmetric db" and st: "st \<noteq> Accepted"
  shows "accepted_symmetric (insertInto_friendships a b st db)"
  unfolding accepted_symmetric_def friendships_insert
proof (intro ballI impI)
  fix f assume m: "f \<in> set (friendships db @
      [\<lparr>id_friendship = nextFriendshipId db, userId = a, friendUserId = b, status = st\<rparr>])"
    and acc: "status f = Accepted"
  from m acc st have "f \<in> set (friendships db)" by auto
  with s acc obtain g where "g \<in> set (friendships db)"
    "userId g = friendUserId f" "friendUserId g = userId f" "status g = Accepted"
    unfolding accepted_symmetric_def by blast
  then show "\<exists>g\<in>set (friendships db @
      [\<lparr>id_friendship = nextFriendshipId db, userId = a, friendUserId = b, status = st\<rparr>]).
           userId g = friendUserId f \<and> friendUserId g = userId f \<and> status g = Accepted"
    by auto
qed

lemma sym_send:
  assumes u: "unique_pairs db" and s: "accepted_symmetric db"
  shows "accepted_symmetric (snd (send (Some c) t db))"
proof (cases "user_exists db t")
  case False
  then show ?thesis using s by (simp add: send_eq)
next
  case True
  show ?thesis
  proof (cases "edge_status db c t")
    case None
    then show ?thesis using True s by (simp add: send_eq sym_insert_nonaccepted)
  next
    case (Some st)
    show ?thesis
    proof (cases "st = Declined")
      case False
      then show ?thesis using True Some s by (cases st) (simp_all add: send_eq)
    next
      case d: True
      have na: "\<forall>f\<in>set (friendships db). userId f = c \<and> friendUserId f = t \<longrightarrow> status f \<noteq> Accepted"
      proof (intro ballI impI)
        fix f assume "f \<in> set (friendships db)" and "userId f = c \<and> friendUserId f = t"
        with u have "edge_status db c t = Some (status f)" by (simp add: unique_status)
        with Some d show "status f \<noteq> Accepted" by simp
      qed
      have "accepted_symmetric
              (updateTable_friendships (\<lambda>f. userId f = c \<and> friendUserId f = t) Requested db)"
        using s _ na by (rule sym_update_nonaccepted) simp
      then show ?thesis using True Some d by (simp add: send_eq)
    qed
  qed
qed

lemma sym_decline:
  assumes u: "unique_pairs db" and s: "accepted_symmetric db"
  shows "accepted_symmetric (snd (decline (Some c) r db))"
proof (cases "pending_request db r c")
  case False
  then show ?thesis using s by (simp add: decline_eq)
next
  case True
  then obtain p where p: "p \<in> set (friendships db)" "userId p = r" "friendUserId p = c"
      "status p = Requested"
    unfolding pending_request_def by blast
  with u have e: "edge_status db r c = Some Requested" by (simp add: unique_status[of db p])
  have na: "\<forall>f\<in>set (friendships db). userId f = r \<and> friendUserId f = c \<longrightarrow> status f \<noteq> Accepted"
  proof (intro ballI impI)
    fix f assume "f \<in> set (friendships db)" and "userId f = r \<and> friendUserId f = c"
    with u have "edge_status db r c = Some (status f)" by (simp add: unique_status)
    with e show "status f \<noteq> Accepted" by simp
  qed
  have "accepted_symmetric
          (updateTable_friendships (\<lambda>f. userId f = r \<and> friendUserId f = c) Declined db)"
    using s _ na by (rule sym_update_nonaccepted) simp
  then show ?thesis using True by (simp add: decline_eq)
qed


lemma accept_frame:
  assumes "(u, v) \<noteq> (r, c)" and "(u, v) \<noteq> (c, r)"
  shows "edge_rows (snd (accept (Some c) r db)) u v = edge_rows db u v"
  using assms
  by (simp add: accept_eq Let_def edge_rows_update_other edge_rows_insert_other)

lemma sym_accept:
  assumes s: "accepted_symmetric db"
  shows "accepted_symmetric (snd (accept (Some c) r db))"
proof (cases "pending_request db r c")
  case False
  then show ?thesis using s by (simp add: accept_eq)
next
  case True
  define db' where "db' = snd (accept (Some c) r db)"
  from True have ok: "fst (accept (Some c) r db) = Inr ()" by (simp add: accept_eq Let_def)
  from accept_post[OF ok]
  have e1: "edge_status db' r c = Some Accepted" and e2: "edge_status db' c r = Some Accepted"
    and all: "\<forall>f\<in>set (friendships db').
          (userId f = r \<and> friendUserId f = c) \<or> (userId f = c \<and> friendUserId f = r)
            \<longrightarrow> status f = Accepted"
    unfolding db'_def by blast+
  have ex: "\<exists>g\<in>set (friendships db'). userId g = a \<and> friendUserId g = b \<and> status g = Accepted"
    if "edge_status db' a b = Some Accepted" for a b
  proof -
    from that obtain g gs where e: "edge_rows db' a b = g # gs" and ga: "status g = Accepted"
      by (auto simp: edge_status_cases split: list.splits)
    from e have "g \<in> set (edge_rows db' a b)" by simp
    then have "g \<in> set (friendships db') \<and> userId g = a \<and> friendUserId g = b"
      by (simp add: edge_rows_set)
    with ga show ?thesis by blast
  qed
  have "accepted_symmetric db'"
    unfolding accepted_symmetric_def
  proof (intro ballI impI)
    fix f assume m: "f \<in> set (friendships db')" and acc: "status f = Accepted"
    consider (rc) "userId f = r \<and> friendUserId f = c"
      | (cr) "userId f = c \<and> friendUserId f = r"
      | (other) "(userId f, friendUserId f) \<noteq> (r, c) \<and> (userId f, friendUserId f) \<noteq> (c, r)"
      by auto
    then show "\<exists>g\<in>set (friendships db').
           userId g = friendUserId f \<and> friendUserId g = userId f \<and> status g = Accepted"
    proof cases
      case rc
      with ex[OF e2] show ?thesis by simp
    next
      case cr
      with ex[OF e1] show ?thesis by simp
    next
      case other
      then have eqf: "edge_rows db' (userId f) (friendUserId f)
                        = edge_rows db (userId f) (friendUserId f)"
        unfolding db'_def by (simp add: accept_frame)
      from m have "f \<in> set (edge_rows db' (userId f) (friendUserId f))"
        by (simp add: edge_rows_set)
      then have "f \<in> set (edge_rows db (userId f) (friendUserId f))"
        by (simp only: eqf)
      then have "f \<in> set (friendships db)" by (simp add: edge_rows_set)
      with s acc obtain g where g: "g \<in> set (friendships db)"
        and gp: "userId g = friendUserId f" "friendUserId g = userId f"
        and ga: "status g = Accepted"
        unfolding accepted_symmetric_def by blast
      from other gp have "(userId g, friendUserId g) \<noteq> (r, c) \<and> (userId g, friendUserId g) \<noteq> (c, r)"
        by auto
      then have eq: "edge_rows db' (userId g) (friendUserId g)
                       = edge_rows db (userId g) (friendUserId g)"
        unfolding db'_def by (simp add: accept_frame)
      from g have "g \<in> set (edge_rows db (userId g) (friendUserId g))"
        by (simp add: edge_rows_set)
      then have "g \<in> set (edge_rows db' (userId g) (friendUserId g))"
        by (simp only: eq)
      then have "g \<in> set (friendships db')" by (simp add: edge_rows_set)
      with gp ga show ?thesis by blast
    qed
  qed
  then show ?thesis by (simp add: db'_def)
qed

lemma unique_pairs_apply: "unique_pairs db \<Longrightarrow> unique_pairs (apply_mutation m db)"
  by (cases m)
     (simp_all add: send_eq accept_eq decline_eq Let_def unique_pairs_update unique_pairs_insert
        edge_status_None split: option.splits FriendshipStatus.splits)

lemma sym_apply:
  "unique_pairs db \<Longrightarrow> accepted_symmetric db \<Longrightarrow> accepted_symmetric (apply_mutation m db)"
  by (cases m) (simp_all add: sym_send sym_accept sym_decline)

lemma sym_run:
  assumes "unique_pairs db" and "accepted_symmetric db"
  shows "unique_pairs (run ms db) \<and> accepted_symmetric (run ms db)"
  using assms
proof (induction ms arbitrary: db)
  case Nil
  then show ?case by simp
next
  case (Cons m ms)
  from Cons.prems have "unique_pairs (apply_mutation m db)" by (simp add: unique_pairs_apply)
  moreover from Cons.prems have "accepted_symmetric (apply_mutation m db)"
    by (simp add: sym_apply)
  ultimately have "unique_pairs (run ms (apply_mutation m db))
       \<and> accepted_symmetric (run ms (apply_mutation m db))" by (rule Cons.IH)
  then show ?case by simp
qed

section \<open>Accepting a request\<close>

text \<open>
  Claim C1. When \<open>accept\<close> by \<open>c\<close> of the request of \<open>r\<close> succeeds, the row from
  \<open>r\<close> to \<open>c\<close> was \<open>requested\<close>, and afterwards the pair \<open>(r, c)\<close> and its mirror
  \<open>(c, r)\<close> both read \<open>accepted\<close>; indeed every row of either pair is \<open>accepted\<close>.
  Nothing is assumed about the mirror before the call: it may be absent, \<open>requested\<close> or
  \<open>declined\<close>. And invariant I2 holds along every sequence of calls: from a state with
  at most one row per pair in which every \<open>accepted\<close> row has an \<open>accepted\<close> mirror,
  every state reached by \<open>send\<close>, \<open>accept\<close> and \<open>decline\<close> is such a state.
\<close>

theorem accept_both_accepted:
  "(fst (accept (Some c) r db) = Inr () \<longrightarrow>
       pending_request db r c
     \<and> edge_status (snd (accept (Some c) r db)) r c = Some Accepted
     \<and> edge_status (snd (accept (Some c) r db)) c r = Some Accepted
     \<and> (\<forall>f\<in>set (friendships (snd (accept (Some c) r db))).
          (userId f = r \<and> friendUserId f = c) \<or> (userId f = c \<and> friendUserId f = r)
            \<longrightarrow> status f = Accepted))
   \<and> (unique_pairs db \<and> accepted_symmetric db \<longrightarrow> accepted_symmetric (run ms db))"
proof (rule conjI)
  show "fst (accept (Some c) r db) = Inr () \<longrightarrow>
       pending_request db r c
     \<and> edge_status (snd (accept (Some c) r db)) r c = Some Accepted
     \<and> edge_status (snd (accept (Some c) r db)) c r = Some Accepted
     \<and> (\<forall>f\<in>set (friendships (snd (accept (Some c) r db))).
          (userId f = r \<and> friendUserId f = c) \<or> (userId f = c \<and> friendUserId f = r)
            \<longrightarrow> status f = Accepted)"
    by (rule impI) (rule accept_post)
  show "unique_pairs db \<and> accepted_symmetric db \<longrightarrow> accepted_symmetric (run ms db)"
    by (simp add: sym_run)
qed

text \<open>The three cases of the mirror (absent, \<open>requested\<close> and \<open>declined\<close>), and the
  scenario of the spec: send, decline, send again, a request the other way, accept.\<close>

theorem accept_both_accepted_witness:
  "(fst (accept (Some 2) 1 (db_of [edge 1 1 2 Requested])) = Inr ()
    \<and> edge_status (db_of [edge 1 1 2 Requested]) 2 1 = None
    \<and> edge_status (snd (accept (Some 2) 1 (db_of [edge 1 1 2 Requested]))) 1 2 = Some Accepted
    \<and> edge_status (snd (accept (Some 2) 1 (db_of [edge 1 1 2 Requested]))) 2 1 = Some Accepted)
   \<and> (fst (accept (Some 2) 1 (db_of [edge 1 1 2 Requested, edge 2 2 1 Requested])) = Inr ()
    \<and> edge_status (snd (accept (Some 2) 1
          (db_of [edge 1 1 2 Requested, edge 2 2 1 Requested]))) 1 2 = Some Accepted
    \<and> edge_status (snd (accept (Some 2) 1
          (db_of [edge 1 1 2 Requested, edge 2 2 1 Requested]))) 2 1 = Some Accepted)
   \<and> (fst (accept (Some 2) 1 (db_of [edge 1 1 2 Requested, edge 2 2 1 Declined])) = Inr ()
    \<and> edge_status (snd (accept (Some 2) 1
          (db_of [edge 1 1 2 Requested, edge 2 2 1 Declined]))) 1 2 = Some Accepted
    \<and> edge_status (snd (accept (Some 2) 1
          (db_of [edge 1 1 2 Requested, edge 2 2 1 Declined]))) 2 1 = Some Accepted)
   \<and> (unique_pairs (db_of []) \<and> accepted_symmetric (db_of [])
    \<and> accepted_symmetric
          (run [Send 1 2, Decline 2 1, Send 1 2, Send 2 1, Accept 2 1] (db_of []))
    \<and> edge_status (run [Send 1 2, Decline 2 1, Send 1 2, Send 2 1, Accept 2 1] (db_of []))
          1 2 = Some Accepted
    \<and> edge_status (run [Send 1 2, Decline 2 1, Send 1 2, Send 2 1, Accept 2 1] (db_of []))
          2 1 = Some Accepted)"
proof -
  have h1: "fst (accept (Some 2) 1 (db_of [edge 1 1 2 Requested])) = Inr ()"
    by code_simp
  have n1: "edge_status (db_of [edge 1 1 2 Requested]) 2 1 = None"
    by code_simp
  have h2: "fst (accept (Some 2) 1 (db_of [edge 1 1 2 Requested, edge 2 2 1 Requested])) = Inr ()"
    by code_simp
  have h3: "fst (accept (Some 2) 1 (db_of [edge 1 1 2 Requested, edge 2 2 1 Declined])) = Inr ()"
    by code_simp
  have u: "unique_pairs (db_of [])" by code_simp
  have s: "accepted_symmetric (db_of [])" by code_simp
  have r1: "edge_status (run [Send 1 2, Decline 2 1, Send 1 2, Send 2 1, Accept 2 1] (db_of []))
          1 2 = Some Accepted" by code_simp
  have r2: "edge_status (run [Send 1 2, Decline 2 1, Send 1 2, Send 2 1, Accept 2 1] (db_of []))
          2 1 = Some Accepted" by code_simp
  from accept_both_accepted[of 2 1 "db_of [edge 1 1 2 Requested]"]
       accept_both_accepted[of 2 1 "db_of [edge 1 1 2 Requested, edge 2 2 1 Requested]"]
       accept_both_accepted[of 2 1 "db_of [edge 1 1 2 Requested, edge 2 2 1 Declined]"]
       accept_both_accepted[of 2 1 "db_of []"
          "[Send 1 2, Decline 2 1, Send 1 2, Send 2 1, Accept 2 1]"]
       h1 n1 h2 h3 u s r1 r2
  show ?thesis by blast
qed

section \<open>The guard of accept and decline\<close>

text \<open>
  Claim C4. Unless there is a row from \<open>r\<close> to \<open>c\<close> with status exactly \<open>requested\<close>,
  both \<open>accept\<close> and \<open>decline\<close> by \<open>c\<close> fail with the error of
  \<open>canAnswerFriendshipRequest\<close> (the \<open>BAD_REQUEST\<close> that the spec calls
  \<open>NoPendingRequest\<close>) and leave the store as it was; with such a row both succeed.
\<close>

theorem answer_needs_pending_request:
  "(\<not> pending_request db r c \<longrightarrow>
       accept (Some c) r db = (Inl (TRPCError BAD_REQUEST None), db)
     \<and> decline (Some c) r db = (Inl (TRPCError BAD_REQUEST None), db))
   \<and> (pending_request db r c \<longrightarrow>
       fst (accept (Some c) r db) = Inr () \<and> fst (decline (Some c) r db) = Inr ())"
proof (rule conjI)
  show "\<not> pending_request db r c \<longrightarrow>
       accept (Some c) r db = (Inl (TRPCError BAD_REQUEST None), db)
     \<and> decline (Some c) r db = (Inl (TRPCError BAD_REQUEST None), db)"
    by (simp add: accept_eq decline_eq)
next
  show "pending_request db r c \<longrightarrow>
       fst (accept (Some c) r db) = Inr () \<and> fst (decline (Some c) r db) = Inr ()"
  proof
    assume p: "pending_request db r c"
    then have "fst (accept (Some c) r db) = Inr ()" by (simp add: accept_eq Let_def)
    moreover from p have "fst (decline (Some c) r db) = Inr ()" by (simp add: decline_eq)
    ultimately show "fst (accept (Some c) r db) = Inr () \<and> fst (decline (Some c) r db) = Inr ()"
      by simp
  qed
qed

theorem answer_needs_pending_request_witness:
  "\<not> pending_request (db_of [edge 1 1 2 Declined]) 1 2
   \<and> accept (Some 2) 1 (db_of [edge 1 1 2 Declined])
        = (Inl (TRPCError BAD_REQUEST None), db_of [edge 1 1 2 Declined])
   \<and> decline (Some 2) 1 (db_of [edge 1 1 2 Declined])
        = (Inl (TRPCError BAD_REQUEST None), db_of [edge 1 1 2 Declined])
   \<and> pending_request (db_of [edge 1 1 2 Requested]) 1 2
   \<and> fst (accept (Some 2) 1 (db_of [edge 1 1 2 Requested])) = Inr ()
   \<and> fst (decline (Some 2) 1 (db_of [edge 1 1 2 Requested])) = Inr ()"
proof -
  have h1: "\<not> pending_request (db_of [edge 1 1 2 Declined]) 1 2" by code_simp
  have h2: "pending_request (db_of [edge 1 1 2 Requested]) 1 2" by code_simp
  from answer_needs_pending_request[of "db_of [edge 1 1 2 Declined]" 1 2]
       answer_needs_pending_request[of "db_of [edge 1 1 2 Requested]" 1 2] h1 h2
  show ?thesis by blast
qed

section \<open>Failing calls\<close>

text \<open>
  Claim C9. A call of \<open>send\<close>, \<open>accept\<close> or \<open>decline\<close> that fails, with whatever
  error and whatever session, leaves the store exactly as it was.
\<close>

theorem failed_mutation_no_effect:
  "(fst (send session x db) = Inl e \<longrightarrow> snd (send session x db) = db)
   \<and> (fst (accept session x db) = Inl e \<longrightarrow> snd (accept session x db) = db)
   \<and> (fst (decline session x db) = Inl e \<longrightarrow> snd (decline session x db) = db)"
  by (cases session)
     (auto simp: none_session send_eq accept_eq decline_eq Let_def
           split: option.splits FriendshipStatus.splits if_splits)

theorem failed_mutation_no_effect_witness:
  "fst (send (Some 1) 2 (db_of [edge 1 1 2 Requested]))
       = Inl (TRPCError BAD_REQUEST (Some msgExistsOrAccepted))
   \<and> snd (send (Some 1) 2 (db_of [edge 1 1 2 Requested])) = db_of [edge 1 1 2 Requested]
   \<and> fst (accept (Some 1) 2 (db_of [edge 1 1 2 Requested])) = Inl (TRPCError BAD_REQUEST None)
   \<and> snd (accept (Some 1) 2 (db_of [edge 1 1 2 Requested])) = db_of [edge 1 1 2 Requested]
   \<and> fst (decline (Some 1) 2 (db_of [edge 1 1 2 Requested])) = Inl (TRPCError BAD_REQUEST None)
   \<and> snd (decline (Some 1) 2 (db_of [edge 1 1 2 Requested])) = db_of [edge 1 1 2 Requested]"
proof -
  have h1: "fst (send (Some 1) 2 (db_of [edge 1 1 2 Requested]))
              = Inl (TRPCError BAD_REQUEST (Some msgExistsOrAccepted))"
    by code_simp
  have h2: "fst (accept (Some 1) 2 (db_of [edge 1 1 2 Requested])) = Inl (TRPCError BAD_REQUEST None)"
    by code_simp
  have h3: "fst (decline (Some 1) 2 (db_of [edge 1 1 2 Requested])) = Inl (TRPCError BAD_REQUEST None)"
    by code_simp
  from failed_mutation_no_effect[of "Some 1" 2 "db_of [edge 1 1 2 Requested]"
          "TRPCError BAD_REQUEST (Some msgExistsOrAccepted)"]
       failed_mutation_no_effect[of "Some 1" 2 "db_of [edge 1 1 2 Requested]"
          "TRPCError BAD_REQUEST None"] h1 h2 h3
  show ?thesis by blast
qed

section \<open>Sending again after a decline\<close>

text \<open>
  Claim C2. After a successful \<open>send\<close> from \<open>a\<close> to \<open>b\<close>, the \<open>decline\<close> by
  \<open>b\<close> succeeds and leaves the pair \<open>(a, b)\<close> \<open>declined\<close>; a second \<open>send\<close> from
  \<open>a\<close> to \<open>b\<close> then succeeds and leaves the pair \<open>requested\<close>. The second
  \<open>send\<close> inserts nothing: the rows and their identities are those after the first.
\<close>

theorem send_reopens_declined:
  assumes ok: "fst (send (Some a) b db) = Inr ()"
  shows "fst (decline (Some b) a (snd (send (Some a) b db))) = Inr ()
     \<and> edge_status (snd (decline (Some b) a (snd (send (Some a) b db)))) a b = Some Declined
     \<and> fst (send (Some a) b (snd (decline (Some b) a (snd (send (Some a) b db))))) = Inr ()
     \<and> edge_status (snd (send (Some a) b (snd (decline (Some b) a (snd (send (Some a) b db))))))
          a b = Some Requested
     \<and> map row_identity
          (friendships (snd (send (Some a) b (snd (decline (Some b) a (snd (send (Some a) b db)))))))
        = map row_identity (friendships (snd (send (Some a) b db)))"
proof -
  define db1 where "db1 = snd (send (Some a) b db)"
  define db2 where "db2 = snd (decline (Some b) a db1)"
  define db3 where "db3 = snd (send (Some a) b db2)"
  from send_ok_requested[OF ok] have ue: "user_exists db b"
    and r1: "edge_status db1 a b = Some Requested" by (simp_all add: db1_def)
  have ue1: "user_exists db1 b"
    using ue by (simp add: db1_def send_eq split: option.splits FriendshipStatus.splits)
  have p1: "pending_request db1 a b" using r1 by (rule requested_pending)
  have d2: "db2 = updateTable_friendships (\<lambda>f. userId f = a \<and> friendUserId f = b) Declined db1"
    using p1 by (simp add: db2_def decline_eq)
  have ok2: "fst (decline (Some b) a db1) = Inr ()" using p1 by (simp add: decline_eq)
  have ne1: "edge_rows db1 a b \<noteq> []" using r1 by (rule edge_status_Some_rows)
  have s2: "edge_status db2 a b = Some Declined"
    unfolding d2 using ne1 by (rule edge_status_update_same)
  have ue2: "user_exists db2 b" using ue1 by (simp add: d2)
  have d3: "send (Some a) b db2 =
      (Inr (), updateTable_friendships (\<lambda>f. userId f = a \<and> friendUserId f = b) Requested db2)"
    using ue2 s2 by (simp add: send_eq)
  have ne2: "edge_rows db2 a b \<noteq> []" using s2 by (rule edge_status_Some_rows)
  have s3: "edge_status db3 a b = Some Requested"
    unfolding db3_def d3 snd_conv using ne2 by (rule edge_status_update_same)
  have e3: "db3 = updateTable_friendships (\<lambda>f. userId f = a \<and> friendUserId f = b) Requested db2"
    by (simp add: db3_def d3)
  have "map row_identity (friendships db3) = map row_identity (friendships db2)"
    by (simp only: e3 identities_update)
  also have "\<dots> = map row_identity (friendships db1)"
    by (simp only: d2 identities_update)
  finally have ids: "map row_identity (friendships db3) = map row_identity (friendships db1)" .
  from ok2 s2 d3 s3 ids show ?thesis
    unfolding db3_def db2_def db1_def by simp
qed

theorem send_reopens_declined_witness:
  "fst (send (Some 1) 2 (db_of [])) = Inr ()
   \<and> fst (decline (Some 2) 1 (snd (send (Some 1) 2 (db_of [])))) = Inr ()
   \<and> fst (send (Some 1) 2 (snd (decline (Some 2) 1 (snd (send (Some 1) 2 (db_of [])))))) = Inr ()
   \<and> edge_status (snd (send (Some 1) 2 (snd (decline (Some 2) 1 (snd (send (Some 1) 2 (db_of [])))))))
        1 2 = Some Requested"
proof -
  have h: "fst (send (Some 1) 2 (db_of [])) = Inr ()" by code_simp
  from send_reopens_declined[OF h] h show ?thesis by blast
qed

section \<open>One row per ordered pair\<close>

text \<open>
  Claim C7. Each of \<open>send\<close>, \<open>accept\<close> and \<open>decline\<close> keeps the identity of the data
  model: when the store has at most one row per ordered pair \<open>(userId, friendUserId)\<close>
  before the call, it has so after it. (\<open>send\<close> and \<open>accept\<close> insert only where the
  point lookup found no row, and update in place otherwise.)
\<close>

theorem mutations_keep_unique_pairs:
  assumes u: "unique_pairs db"
  shows "unique_pairs (snd (send session x db))
       \<and> unique_pairs (snd (accept session x db))
       \<and> unique_pairs (snd (decline session x db))"
proof (cases session)
  case None
  then show ?thesis using u by (simp add: none_session)
next
  case (Some c)
  have s: "unique_pairs (snd (send (Some c) x db))"
    using u by (simp add: send_eq unique_pairs_update unique_pairs_insert edge_status_None
        split: option.splits FriendshipStatus.splits)
  have a: "unique_pairs (snd (accept (Some c) x db))"
    using u by (simp add: accept_eq Let_def unique_pairs_update unique_pairs_insert)
  have d: "unique_pairs (snd (decline (Some c) x db))"
    using u by (simp add: decline_eq unique_pairs_update)
  from s a d Some show ?thesis by simp
qed

theorem mutations_keep_unique_pairs_witness:
  "unique_pairs (db_of [edge 1 1 2 Requested])
   \<and> unique_pairs (snd (send (Some 2) 1 (db_of [edge 1 1 2 Requested])))
   \<and> unique_pairs (snd (accept (Some 2) 1 (db_of [edge 1 1 2 Requested])))
   \<and> unique_pairs (snd (decline (Some 2) 1 (db_of [edge 1 1 2 Requested])))
   \<and> length (friendships (snd (send (Some 2) 1 (db_of [edge 1 1 2 Requested])))) = 2
   \<and> length (friendships (snd (accept (Some 2) 1 (db_of [edge 1 1 2 Requested])))) = 2"
proof -
  have h: "unique_pairs (db_of [edge 1 1 2 Requested])" by code_simp
  have l1: "length (friendships (snd (send (Some 2) 1 (db_of [edge 1 1 2 Requested])))) = 2"
    by code_simp
  have l2: "length (friendships (snd (accept (Some 2) 1 (db_of [edge 1 1 2 Requested])))) = 2"
    by code_simp
  from mutations_keep_unique_pairs[OF h, of "Some 2" 1] h l1 l2 show ?thesis by blast
qed

section \<open>Rows are never deleted or re-keyed\<close>

text \<open>
  Claim C10. After any call of \<open>send\<close>, \<open>accept\<close> or \<open>decline\<close>, every row that was
  in the store is still there, in its place, with the same \<open>id\<close>, \<open>userId\<close> and
  \<open>friendUserId\<close>: only its status may differ, and rows are only added at the end.
\<close>

theorem mutations_keep_rows:
  "keeps_rows db (snd (send session x db))
   \<and> keeps_rows db (snd (accept session x db))
   \<and> keeps_rows db (snd (decline session x db))"
proof (cases session)
  case None
  then show ?thesis by (simp add: none_session keeps_rows_refl)
next
  case (Some c)
  have s: "keeps_rows db (snd (send (Some c) x db))"
    by (simp add: send_eq keeps_rows_refl keeps_rows_update keeps_rows_insert
        split: option.splits FriendshipStatus.splits)
  have a: "keeps_rows db (snd (accept (Some c) x db))"
    by (simp add: accept_eq Let_def keeps_rows_refl keeps_rows_update keeps_rows_insert)
  have d: "keeps_rows db (snd (decline (Some c) x db))"
    by (simp add: decline_eq keeps_rows_refl keeps_rows_update)
  from s a d Some show ?thesis by simp
qed

section \<open>Sending to an edge that is pending or accepted\<close>

text \<open>
  Claim C3 says that \<open>send\<close> fails with two distinct typed failures, one for an edge
  that is \<open>requested\<close> and one for an edge that is \<open>accepted\<close>. The code has one
  branch for both and raises the same error, with the same code and message: the two
  failures below are equal.
\<close>

theorem send_failures_not_distinct:
  "edge_status (db_of [edge 1 1 2 Requested]) 1 2 = Some Requested
   \<and> edge_status (db_of [edge 1 1 2 Accepted]) 1 2 = Some Accepted
   \<and> fst (send (Some 1) 2 (db_of [edge 1 1 2 Requested]))
        = Inl (TRPCError BAD_REQUEST (Some msgExistsOrAccepted))
   \<and> fst (send (Some 1) 2 (db_of [edge 1 1 2 Accepted]))
        = Inl (TRPCError BAD_REQUEST (Some msgExistsOrAccepted))
   \<and> fst (send (Some 1) 2 (db_of [edge 1 1 2 Requested]))
        = fst (send (Some 1) 2 (db_of [edge 1 1 2 Accepted]))"
  by code_simp

text \<open>
  Claim C3, amended. For an existing target, \<open>send\<close> fails when the pair \<open>(c, t)\<close>
  reads \<open>requested\<close> or \<open>accepted\<close>, in both cases with the one \<open>BAD_REQUEST\<close> of
  \<open>checkAndUpdateFriendshipRequest\<close>, and the store is unchanged. And a second \<open>send\<close>
  right after a successful one fails so, leaving exactly one row of the pair (the store
  having at most one row per pair to begin with).
\<close>

theorem send_existing_edge_rejected:
  assumes ue: "user_exists db t"
  shows "(edge_status db c t = Some Requested \<or> edge_status db c t = Some Accepted \<longrightarrow>
            send (Some c) t db = (Inl (TRPCError BAD_REQUEST (Some msgExistsOrAccepted)), db))
     \<and> (unique_pairs db \<and> fst (send (Some c) t db) = Inr () \<longrightarrow>
            send (Some c) t (snd (send (Some c) t db))
              = (Inl (TRPCError BAD_REQUEST (Some msgExistsOrAccepted)), snd (send (Some c) t db))
          \<and> length (edge_rows (snd (send (Some c) t db)) c t) = 1)"
proof (intro conjI impI)
  assume "edge_status db c t = Some Requested \<or> edge_status db c t = Some Accepted"
  with ue show "send (Some c) t db = (Inl (TRPCError BAD_REQUEST (Some msgExistsOrAccepted)), db)"
    by (rule send_rejects)
next
  assume a: "unique_pairs db \<and> fst (send (Some c) t db) = Inr ()"
  define db1 where "db1 = snd (send (Some c) t db)"
  from a send_ok_requested[of c t db] have r: "edge_status db1 c t = Some Requested"
    by (simp add: db1_def)
  have ue1: "user_exists db1 t" using ue by (simp add: db1_def user_exists_send)
  from ue1 r show "send (Some c) t (snd (send (Some c) t db))
      = (Inl (TRPCError BAD_REQUEST (Some msgExistsOrAccepted)), snd (send (Some c) t db))"
    unfolding db1_def[symmetric] by (simp add: send_rejects)
next
  assume a: "unique_pairs db \<and> fst (send (Some c) t db) = Inr ()"
  define db1 where "db1 = snd (send (Some c) t db)"
  from a send_ok_requested[of c t db] have r: "edge_status db1 c t = Some Requested"
    by (simp add: db1_def)
  then have ne: "edge_rows db1 c t \<noteq> []" by (rule edge_status_Some_rows)
  from a have "unique_pairs db1" by (simp add: db1_def unique_pairs_send)
  then have "length (edge_rows db1 c t) \<le> 1" by (rule unique_pairs_edge_rows)
  with ne have "length (edge_rows db1 c t) = 1" by (cases "edge_rows db1 c t") auto
  then show "length (edge_rows (snd (send (Some c) t db)) c t) = 1" by (simp add: db1_def)
qed

theorem send_existing_edge_rejected_witness:
  "user_exists (db_of [edge 1 1 2 Accepted]) 2
   \<and> edge_status (db_of [edge 1 1 2 Accepted]) 1 2 = Some Accepted
   \<and> send (Some 1) 2 (db_of [edge 1 1 2 Accepted])
        = (Inl (TRPCError BAD_REQUEST (Some msgExistsOrAccepted)), db_of [edge 1 1 2 Accepted])
   \<and> user_exists (db_of []) 2 \<and> unique_pairs (db_of [])
   \<and> fst (send (Some 1) 2 (db_of [])) = Inr ()
   \<and> send (Some 1) 2 (snd (send (Some 1) 2 (db_of [])))
        = (Inl (TRPCError BAD_REQUEST (Some msgExistsOrAccepted)), snd (send (Some 1) 2 (db_of [])))
   \<and> length (edge_rows (snd (send (Some 1) 2 (db_of []))) 1 2) = 1"
proof -
  have u1: "user_exists (db_of [edge 1 1 2 Accepted]) 2" by code_simp
  have e1: "edge_status (db_of [edge 1 1 2 Accepted]) 1 2 = Some Accepted" by code_simp
  have u2: "user_exists (db_of []) 2" by code_simp
  have q2: "unique_pairs (db_of [])" by code_simp
  have s2: "fst (send (Some 1) 2 (db_of [])) = Inr ()" by code_simp
  from send_existing_edge_rejected[OF u1, of 1] send_existing_edge_rejected[OF u2, of 1]
    u1 e1 u2 q2 s2
  show ?thesis by blast
qed

section \<open>Edges from a user to themselves\<close>

text \<open>
  Claim C5 says that self-targeted mutations are rejected, so that no reachable state has
  a row with \<open>userId = friendUserId\<close>. The guard of \<open>send\<close> only looks the target up in
  \<open>users\<close>: user 1 sending to user 1 succeeds and inserts the row \<open>(1, 1)\<close>.
\<close>

theorem self_send_creates_self_edge:
  "no_self_edges (db_of [])
   \<and> fst (send (Some 1) 1 (db_of [])) = Inr ()
   \<and> edge_status (snd (send (Some 1) 1 (db_of []))) 1 1 = Some Requested
   \<and> \<not> no_self_edges (snd (send (Some 1) 1 (db_of [])))"
  by code_simp

text \<open>
  Claim C5, amended. \<open>accept\<close> and \<open>decline\<close> never create a row from a user to
  themselves, and \<open>send\<close> does so only when the caller is the target. So from a state
  without such rows, every sequence of calls in which no \<open>send\<close> targets its own caller
  leads to a state without such rows.
\<close>

theorem no_self_edges_reachable:
  assumes "no_self_edges db" and "\<forall>m\<in>set ms. \<not> self_send m"
  shows "no_self_edges (run ms db)"
  using assms
proof (induction ms arbitrary: db)
  case Nil
  then show ?case by simp
next
  case (Cons m ms)
  from Cons.prems have "no_self_edges (apply_mutation m db)"
    by (simp add: no_self_edges_apply)
  moreover from Cons.prems have "\<forall>m\<in>set ms. \<not> self_send m" by simp
  ultimately have "no_self_edges (run ms (apply_mutation m db))" by (rule Cons.IH)
  then show ?case by simp
qed

theorem no_self_edges_reachable_witness:
  "no_self_edges (db_of [])
   \<and> list_all (\<lambda>m. \<not> self_send m) [Send 1 2, Decline 2 1, Send 1 2, Send 2 1, Accept 2 1]
   \<and> no_self_edges (run [Send 1 2, Decline 2 1, Send 1 2, Send 2 1, Accept 2 1] (db_of []))
   \<and> length (friendships (run [Send 1 2, Decline 2 1, Send 1 2, Send 2 1, Accept 2 1] (db_of [])))
        = 2"
proof -
  have h1: "no_self_edges (db_of [])" by code_simp
  have h2: "\<forall>m\<in>set [Send 1 2, Decline 2 1, Send 1 2, Send 2 1, Accept 2 1]. \<not> self_send m"
    by simp
  have l: "length (friendships (run [Send 1 2, Decline 2 1, Send 1 2, Send 2 1, Accept 2 1]
             (db_of []))) = 2"
    by code_simp
  have h3: "list_all (\<lambda>m. \<not> self_send m) [Send 1 2, Decline 2 1, Send 1 2, Send 2 1, Accept 2 1]"
    by simp
  from no_self_edges_reachable[OF h1 h2] h1 h3 l show ?thesis by blast
qed

section \<open>The mirror edge under send and decline\<close>

text \<open>
  Claim C6 says that \<open>send\<close> and \<open>decline\<close> leave the mirror edge unchanged in all
  cases, and that after \<open>send(A,B)\<close> and the decline by \<open>B\<close> there is no row \<open>(B,A)\<close>.
  When \<open>B\<close> had sent a request to \<open>A\<close> before, the row \<open>(B,A)\<close> is still there after
  the two calls; and when the caller is the target, the mirror is the edge itself, which
  \<open>send\<close> writes.
\<close>

theorem mirror_row_may_exist:
  "fst (send (Some 1) 2 (db_of [edge 1 2 1 Requested])) = Inr ()
   \<and> fst (decline (Some 2) 1 (snd (send (Some 1) 2 (db_of [edge 1 2 1 Requested])))) = Inr ()
   \<and> edge_rows (snd (decline (Some 2) 1 (snd (send (Some 1) 2 (db_of [edge 1 2 1 Requested])))))
        2 1 \<noteq> []
   \<and> fst (send (Some 1) 1 (db_of [])) = Inr ()
   \<and> edge_rows (snd (send (Some 1) 1 (db_of []))) 1 1 \<noteq> edge_rows (db_of []) 1 1"
  by code_simp

text \<open>
  Claim C6, amended. \<open>send\<close> from \<open>a\<close> to \<open>b\<close> and \<open>decline\<close> by \<open>b\<close> of the request
  of \<open>a\<close> change rows of the pair \<open>(a, b)\<close> only: the rows of every other pair
  \<open>(u, v)\<close> are the same after either call, and after the one followed by the other. For
  \<open>a \<noteq> b\<close> this holds of the mirror \<open>(b, a)\<close>: its rows after \<open>send\<close> and \<open>decline\<close>
  are those before, and there is none if there was none.
\<close>

theorem send_decline_frame:
  assumes "(u, v) \<noteq> (a, b)"
  shows "edge_rows (snd (send (Some a) b db)) u v = edge_rows db u v
     \<and> edge_rows (snd (decline (Some b) a db)) u v = edge_rows db u v
     \<and> edge_rows (snd (decline (Some b) a (snd (send (Some a) b db)))) u v = edge_rows db u v"
proof -
  from assms have s: "edge_rows (snd (send (Some a) b db)) u v = edge_rows db u v"
    by (rule send_frame)
  from assms have d: "edge_rows (snd (decline (Some b) a db)) u v = edge_rows db u v"
    by (rule decline_frame)
  from assms have "edge_rows (snd (decline (Some b) a (snd (send (Some a) b db)))) u v
      = edge_rows (snd (send (Some a) b db)) u v"
    by (rule decline_frame)
  with s have "edge_rows (snd (decline (Some b) a (snd (send (Some a) b db)))) u v
      = edge_rows db u v"
    by simp
  with s d show ?thesis by simp
qed

theorem send_decline_frame_witness:
  "((2::nat), (1::nat)) \<noteq> (1, 2)
   \<and> edge_rows (snd (send (Some 1) 2 (db_of [edge 1 2 1 Declined]))) 2 1 = [edge 1 2 1 Declined]
   \<and> edge_rows (snd (decline (Some 2) 1 (snd (send (Some 1) 2 (db_of [edge 1 2 1 Declined])))))
        2 1 = [edge 1 2 1 Declined]
   \<and> edge_rows (snd (decline (Some 2) 1 (snd (send (Some 1) 2 (db_of []))))) 2 1 = []"
proof -
  have h: "((2::nat), (1::nat)) \<noteq> (1, 2)" by simp
  have e1: "edge_rows (db_of [edge 1 2 1 Declined]) 2 1 = [edge 1 2 1 Declined]" by code_simp
  have e2: "edge_rows (db_of []) 2 1 = []" by code_simp
  from send_decline_frame[OF h, of "db_of [edge 1 2 1 Declined]"]
       send_decline_frame[OF h, of "db_of []"] h e1 e2
  show ?thesis by simp
qed

section \<open>The mutual-friend count\<close>

text \<open>
  Claim C8. In a store with at most one row per ordered pair, when \<open>getById\<close> returns,
  its \<open>mutualFriendCount\<close> is the size of the intersection of the accepted-outbound sets
  of the caller and of the friend; and a user \<open>x\<close> is in that intersection exactly when
  both \<open>(c, x)\<close> and \<open>(t, x)\<close> read \<open>accepted\<close>.
\<close>

theorem getById_mutualFriendCount:
  assumes "unique_pairs db" and "getById (Some c) t db = Inr info"
  shows "mutualFriendCount info = spec_mutualFriendCount db c t
       \<and> (\<forall>x. (x \<in> acceptedOutbound db c \<inter> acceptedOutbound db t) =
              (edge_status db c x = Some Accepted \<and> edge_status db t x = Some Accepted))"
proof -
  have m: "mutualFriendCount info = spec_mutualFriendCount db c t"
    using assms by (simp add: getById_mutual mutual_count_spec)
  have e: "(x \<in> acceptedOutbound db u) = (edge_status db u x = Some Accepted)" for u x
  proof -
    have le: "length (edge_rows db u x) \<le> 1" using assms(1) by (rule unique_pairs_edge_rows)
    show ?thesis
    proof (cases "edge_rows db u x")
      case Nil
      then have "\<forall>f\<in>set (friendships db). \<not> (userId f = u \<and> friendUserId f = x)"
        by (auto simp: edge_rows_def selectFrom_friendships_def filter_empty_conv)
      then show ?thesis using Nil by (auto simp: acceptedOutbound_iff edge_status_cases)
    next
      case (Cons f fs)
      with le have fs: "fs = []" by simp
      have "set (edge_rows db u x) = {f}" by (simp add: Cons fs)
      then have s: "{g \<in> set (friendships db). userId g = u \<and> friendUserId g = x} = {f}"
        by (simp add: edge_rows_set)
      have "(x \<in> acceptedOutbound db u) =
            (\<exists>g\<in>{g \<in> set (friendships db). userId g = u \<and> friendUserId g = x}. status g = Accepted)"
        by (auto simp: acceptedOutbound_iff)
      also have "\<dots> = (status f = Accepted)" by (simp only: s) simp
      finally show ?thesis by (simp add: edge_status_cases Cons)
    qed
  qed
  from m e show ?thesis by simp
qed

text \<open>Bob (2) and Carol (3) are friends, and both are friends of Alice (1) and of Dave (4):
  the count is 2.\<close>

theorem getById_mutualFriendCount_witness:
  "unique_pairs (db_of [edge 1 1 2 Accepted, edge 2 2 1 Accepted, edge 3 1 3 Accepted,
       edge 4 3 1 Accepted, edge 5 4 2 Accepted, edge 6 2 4 Accepted, edge 7 4 3 Accepted,
       edge 8 3 4 Accepted, edge 9 2 3 Accepted, edge 10 3 2 Accepted])
   \<and> getById (Some 2) 3 (db_of [edge 1 1 2 Accepted, edge 2 2 1 Accepted, edge 3 1 3 Accepted,
       edge 4 3 1 Accepted, edge 5 4 2 Accepted, edge 6 2 4 Accepted, edge 7 4 3 Accepted,
       edge 8 3 4 Accepted, edge 9 2 3 Accepted, edge 10 3 2 Accepted])
       = Inr \<lparr>id_user = 3, fullName = ''Carol'', phoneNumber = ''0003'',
              totalFriendCount = 3, mutualFriendCount = 2\<rparr>
   \<and> spec_mutualFriendCount (db_of [edge 1 1 2 Accepted, edge 2 2 1 Accepted, edge 3 1 3 Accepted,
       edge 4 3 1 Accepted, edge 5 4 2 Accepted, edge 6 2 4 Accepted, edge 7 4 3 Accepted,
       edge 8 3 4 Accepted, edge 9 2 3 Accepted, edge 10 3 2 Accepted]) 2 3 = 2"
proof -
  let ?db = "db_of [edge 1 1 2 Accepted, edge 2 2 1 Accepted, edge 3 1 3 Accepted,
       edge 4 3 1 Accepted, edge 5 4 2 Accepted, edge 6 2 4 Accepted, edge 7 4 3 Accepted,
       edge 8 3 4 Accepted, edge 9 2 3 Accepted, edge 10 3 2 Accepted]"
  have u: "unique_pairs ?db" by code_simp
  have g: "getById (Some 2) 3 ?db = Inr \<lparr>id_user = 3, fullName = ''Carol'', phoneNumber = ''0003'',
        totalFriendCount = 3, mutualFriendCount = 2\<rparr>" by code_simp
  from getById_mutualFriendCount[OF u g] u g show ?thesis by simp
qed

end
